theory Spec2Isabelle
  imports Complex_Main
begin

section \<open>Python strings and pathlib paths\<close>

text \<open>
  The engine of \<^verbatim>\<open>file_organizer.py\<close> works on Python strings and on
  \<^verbatim>\<open>pathlib.Path\<close> values. A string is a \<^typ>\<open>string\<close>; the string methods
  below are the ASCII behaviour of \<^verbatim>\<open>str.lower\<close>, \<^verbatim>\<open>str.upper\<close>,
  \<^verbatim>\<open>str.isalpha\<close>, \<^verbatim>\<open>str.strip\<close>, \<^verbatim>\<open>str.split\<close> and of
  \<^verbatim>\<open>str(i)\<close> on a non-negative integer.
\<close>

definition lower_char :: "char \<Rightarrow> char" where
  "lower_char c =
     (case map_of (zip ''ABCDEFGHIJKLMNOPQRSTUVWXYZ'' ''abcdefghijklmnopqrstuvwxyz'') c of
        Some d \<Rightarrow> d
      | None \<Rightarrow> c)"

definition lower :: "string \<Rightarrow> string" where
  "lower s = map lower_char s"

definition upper_char :: "char \<Rightarrow> char" where
  "upper_char c =
     (case map_of (zip ''abcdefghijklmnopqrstuvwxyz'' ''ABCDEFGHIJKLMNOPQRSTUVWXYZ'') c of
        Some d \<Rightarrow> d
      | None \<Rightarrow> c)"

definition upper :: "string \<Rightarrow> string" where
  "upper s = map upper_char s"

definition isalpha_char :: "char \<Rightarrow> bool" where
  "isalpha_char c =
     (c \<in> set ''abcdefghijklmnopqrstuvwxyzABCDEFGHIJKLMNOPQRSTUVWXYZ'')"



fun split_acc :: "char \<Rightarrow> string \<Rightarrow> string \<Rightarrow> string list" where
  "split_acc sep cur [] = [cur]"
| "split_acc sep cur (c # cs) =
     (if c = sep then cur # split_acc sep [] cs else split_acc sep (cur @ [c]) cs)"

definition split :: "char \<Rightarrow> string \<Rightarrow> string list" where
  "split sep s = split_acc sep [] s"



definition digit_char :: "nat \<Rightarrow> char" where
  "digit_char d = ''0123456789'' ! d"

function str_nat :: "nat \<Rightarrow> string" where
  "str_nat n = (if n < 10 then [digit_char n] else str_nat (n div 10) @ [digit_char (n mod 10)])"
  by pat_completeness auto

termination
  by (relation "measure (\<lambda>n. n)") auto

declare str_nat.simps [simp del]

text \<open>The two-digit field \<^verbatim>\<open>f"{n:02d}"\<close>.\<close>

definition pad2 :: "nat \<Rightarrow> string" where
  "pad2 n = (if n < 10 then CHR ''0'' # str_nat n else str_nat n)"

text \<open>
  A path is the string \<^verbatim>\<open>str(path)\<close> of a normalised
  \<^verbatim>\<open>pathlib.PurePosixPath\<close>: components separated by single slashes, no trailing
  slash. \<^verbatim>\<open>Path(s)\<close> and \<^verbatim>\<open>str(p)\<close> are then the identity, and so is
  \<^verbatim>\<open>resolve()\<close> on the absolute, symlink-free paths the engine is run on.
\<close>

type_synonym path = string

definition name :: "path \<Rightarrow> string" where
  "name p = (if p = ''.'' then [] else rev (takeWhile (\<lambda>c. c \<noteq> CHR ''/'') (rev p)))"

definition parent :: "path \<Rightarrow> path" where
  "parent p =
     (let d = dropWhile (\<lambda>c. c \<noteq> CHR ''/'') (rev p) in
      if d = [] then ''.''
      else (let q = rev (tl d) in if q = [] then ''/'' else q))"

text \<open>\<^verbatim>\<open>name.rfind('.')\<close>, with Python's \<open>-1\<close> for "not found".\<close>

definition rfind_dot :: "string \<Rightarrow> int" where
  "rfind_dot nm =
     (if CHR ''.'' \<in> set nm
      then int (length nm) - int (length (takeWhile (\<lambda>c. c \<noteq> CHR ''.'') (rev nm))) - 1
      else - 1)"

definition suffix :: "path \<Rightarrow> string" where
  "suffix p =
     (let nm = name p; i = rfind_dot nm in
      if 0 < i \<and> i < int (length nm) - 1 then drop (nat i) nm else [])"

definition stem :: "path \<Rightarrow> string" where
  "stem p =
     (let nm = name p; i = rfind_dot nm in
      if 0 < i \<and> i < int (length nm) - 1 then take (nat i) nm else nm)"

text \<open>\<^verbatim>\<open>p / c\<close>: an empty right operand changes nothing, an absolute one replaces
  the left operand; the current directory and the root do not get a second separator.\<close>

definition joinp :: "path \<Rightarrow> string \<Rightarrow> path" where
  "joinp p c =
     (if c = [] then p
      else if hd c = CHR ''/'' then c
      else if p = ''.'' then c
      else if p = ''/'' then p @ c
      else p @ ''/'' @ c)"

lemma parent_shorter:
  "parent p \<noteq> ''.'' \<Longrightarrow> parent p \<noteq> ''/'' \<Longrightarrow> length (parent p) < length p"
proof -
  assume a: "parent p \<noteq> ''.''" and b: "parent p \<noteq> ''/''"
  let ?d = "dropWhile (\<lambda>c. c \<noteq> CHR ''/'') (rev p)"
  from a have d: "?d \<noteq> []" by (auto simp: parent_def Let_def split: if_splits)
  with b have eq: "parent p = rev (tl ?d)"
    by (auto simp: parent_def Let_def split: if_splits)
  have "length (tl ?d) < length ?d" using d by (cases ?d) auto
  moreover have "length ?d \<le> length (rev p)" by (rule length_dropWhile_le)
  ultimately show ?thesis using eq by simp
qed

text \<open>\<^verbatim>\<open>p.parents\<close>: the chain of parents up to the root or the current directory.\<close>

function parents :: "path \<Rightarrow> path list" where
  "parents p = (let q = parent p in if q = p then [] else q # parents q)"
  by pat_completeness auto

termination
proof (relation "measure (\<lambda>p. if p = ''.'' \<or> p = ''/'' then 0 else Suc (length p))")
  show "wf (measure (\<lambda>p. if p = ''.'' \<or> p = ''/'' then 0 else Suc (length p)))" by simp
next
  fix p q :: path
  assume q: "q = parent p" and ne: "q \<noteq> p"
  have fix1: "parent ''.'' = ''.''" and fix2: "parent ''/'' = ''/''"
    by (simp_all add: parent_def)
  from q ne fix1 fix2 have p: "p \<noteq> ''.''" "p \<noteq> ''/''" by auto
  show "(q, p) \<in> measure (\<lambda>p. if p = ''.'' \<or> p = ''/'' then 0 else Suc (length p))"
    using p parent_shorter [of p] q by auto
qed

declare parents.simps [simp del]

text \<open>\<^verbatim>\<open>d in p.parents\<close>, and "equal to or nested under".\<close>

definition is_under :: "path \<Rightarrow> path \<Rightarrow> bool" where
  "is_under d p = (d \<in> set (parents p))"

definition at_or_under :: "path \<Rightarrow> path \<Rightarrow> bool" where
  "at_or_under d p = (p = d \<or> is_under d p)"

section \<open>The file system\<close>

text \<open>
  Python exceptions the engine raises or meets. \<^verbatim>\<open>IOError\<close> is Python 3's
  \<^verbatim>\<open>OSError\<close>; \<^verbatim>\<open>shutil.Error\<close> and \<^verbatim>\<open>InterruptedError\<close> are
  subclasses of it, \<^verbatim>\<open>json.JSONDecodeError\<close> is a \<^verbatim>\<open>ValueError\<close>.
\<close>

datatype pyerr =
    ValueError | TypeError | JSONDecodeError
  | PermissionError | FileNotFoundError | FileExistsError
  | NotADirectoryError | IsADirectoryError | ShutilError | InterruptedError

definition is_OSError :: "pyerr \<Rightarrow> bool" where
  "is_OSError e =
     (e \<in> {PermissionError, FileNotFoundError, FileExistsError, NotADirectoryError,
            IsADirectoryError, ShutilError, InterruptedError})"

text \<open>
  The state the engine runs against: the entries of the file system keyed by path (a
  finite association list), each a regular file with its text and the local calendar
  date of its modification time, or a directory; the paths on which the platform
  refuses to create, replace or remove an entry (\<open>wdeny\<close>) or to open one for
  reading (\<open>rdeny\<close>), both with \<^verbatim>\<open>PermissionError\<close>; the size the platform
  reports for a directory; and today's date. The root and the current directory always
  exist.
\<close>

type_synonym date = "nat \<times> nat \<times> nat"

datatype node = File (content: string) (mdate: date) | Dir (mdate: date)

record fs =
  nodes :: "(path \<times> node) list"
  wdeny :: "path \<Rightarrow> bool"
  rdeny :: "path \<Rightarrow> bool"
  dir_size :: nat
  clock :: date

definition lookup :: "fs \<Rightarrow> path \<Rightarrow> node option" where
  "lookup s p = (if p = ''/'' \<or> p = ''.'' then Some (Dir (clock s)) else map_of (nodes s) p)"

definition path_exists :: "fs \<Rightarrow> path \<Rightarrow> bool" where
  "path_exists s p = (lookup s p \<noteq> None)"

definition is_dir :: "fs \<Rightarrow> path \<Rightarrow> bool" where
  "is_dir s p = (case lookup s p of Some (Dir _) \<Rightarrow> True | _ \<Rightarrow> False)"

definition is_file :: "fs \<Rightarrow> path \<Rightarrow> bool" where
  "is_file s p = (case lookup s p of Some (File _ _) \<Rightarrow> True | _ \<Rightarrow> False)"

definition put :: "path \<Rightarrow> node \<Rightarrow> fs \<Rightarrow> fs" where
  "put p n s = s\<lparr>nodes := filter (\<lambda>(q, _). q \<noteq> p) (nodes s) @ [(p, n)]\<rparr>"

definition remove :: "path \<Rightarrow> fs \<Rightarrow> fs" where
  "remove p s = s\<lparr>nodes := filter (\<lambda>(q, _). q \<noteq> p) (nodes s)\<rparr>"

definition remove_tree :: "path \<Rightarrow> fs \<Rightarrow> fs" where
  "remove_tree d s = s\<lparr>nodes := filter (\<lambda>(q, _). \<not> at_or_under d q) (nodes s)\<rparr>"

text \<open>\<^verbatim>\<open>os.mkdir(d)\<close>: the parent must be a directory and \<open>d\<close> must be new.\<close>

definition os_mkdir :: "fs \<Rightarrow> path \<Rightarrow> fs \<times> pyerr option" where
  "os_mkdir s d =
     (case lookup s (parent d) of
        None \<Rightarrow> (s, Some FileNotFoundError)
      | Some (File _ _) \<Rightarrow> (s, Some NotADirectoryError)
      | Some (Dir _) \<Rightarrow>
          if path_exists s d then (s, Some FileExistsError)
          else if wdeny s d then (s, Some PermissionError)
          else (put d (Dir (clock s)) s, None))"

text \<open>
  \<^verbatim>\<open>Path.mkdir(parents=True, exist_ok=True)\<close>, as pathlib writes it: try
  \<^verbatim>\<open>os.mkdir\<close>; on \<^verbatim>\<open>FileNotFoundError\<close> make the parent first and try
  once more; any other \<^verbatim>\<open>OSError\<close> is swallowed when the path is a directory by
  now.
\<close>

function mkdir :: "fs \<Rightarrow> path \<Rightarrow> fs \<times> pyerr option" where
  "mkdir s d =
     (case os_mkdir s d of
        (s1, None) \<Rightarrow> (s1, None)
      | (s1, Some e) \<Rightarrow>
          if e = FileNotFoundError then
            (if parent d = d then (s1, Some e)
             else (case mkdir s1 (parent d) of
                     (s2, Some e2) \<Rightarrow> (s2, Some e2)
                   | (s2, None) \<Rightarrow>
                       (case os_mkdir s2 d of
                          (s3, None) \<Rightarrow> (s3, None)
                        | (s3, Some e3) \<Rightarrow>
                            if e3 = FileNotFoundError then (s3, Some e3)
                            else if is_dir s3 d then (s3, None) else (s3, Some e3))))
          else if is_dir s1 d then (s1, None) else (s1, Some e))"
  by pat_completeness auto

termination
proof (relation "measure (\<lambda>(s, p). if p = ''.'' \<or> p = ''/'' then 0 else Suc (length p))")
  show "wf (measure (\<lambda>(s :: fs, p). if p = ''.'' \<or> p = ''/'' then 0 else Suc (length p)))"
    by simp
next
  fix s :: fs and d :: path and x s1 o1 e
  assume ne: "parent d \<noteq> d"
  have fix1: "parent ''.'' = ''.''" and fix2: "parent ''/'' = ''/''"
    by (simp_all add: parent_def)
  from ne fix1 fix2 have p: "d \<noteq> ''.''" "d \<noteq> ''/''" by auto
  show "((s1, parent d), (s, d))
          \<in> measure (\<lambda>(s, p). if p = ''.'' \<or> p = ''/'' then 0 else Suc (length p))"
    using p parent_shorter [of d] by auto
qed

declare mkdir.simps [simp del]

text \<open>\<^verbatim>\<open>Path.unlink(missing_ok)\<close>.\<close>

definition unlink :: "fs \<Rightarrow> path \<Rightarrow> bool \<Rightarrow> fs \<times> pyerr option" where
  "unlink s p missing_ok =
     (case lookup s p of
        None \<Rightarrow> (s, if missing_ok then None else Some FileNotFoundError)
      | Some (Dir _) \<Rightarrow> (s, Some IsADirectoryError)
      | Some (File _ _) \<Rightarrow>
          if wdeny s p then (s, Some PermissionError) else (remove p s, None))"

text \<open>
  \<^verbatim>\<open>shutil.rmtree(d)\<close>: the whole tree goes, or, when the platform refuses one of
  its entries, the call raises. Which entries a refused call has already removed
  depends on the order of the traversal; here it removes none.
\<close>

definition rmtree :: "fs \<Rightarrow> path \<Rightarrow> fs \<times> pyerr option" where
  "rmtree s d =
     (if \<not> path_exists s d then (s, Some FileNotFoundError)
      else if \<not> is_dir s d then (s, Some NotADirectoryError)
      else if list_ex (\<lambda>(q, _). at_or_under d q \<and> wdeny s q) (nodes s) \<or> wdeny s d
      then (s, Some PermissionError)
      else (remove_tree d s, None))"

text \<open>Reading and writing text files: \<^verbatim>\<open>open(p, "r")\<close>, \<^verbatim>\<open>open(p, "w")\<close> and
  \<^verbatim>\<open>open(p, "a")\<close> followed by one read or one write.\<close>

definition read_text :: "fs \<Rightarrow> path \<Rightarrow> pyerr + string" where
  "read_text s p =
     (case lookup s p of
        None \<Rightarrow> Inl FileNotFoundError
      | Some (Dir _) \<Rightarrow> Inl IsADirectoryError
      | Some (File c _) \<Rightarrow> if rdeny s p then Inl PermissionError else Inr c)"

definition write_text :: "fs \<Rightarrow> path \<Rightarrow> bool \<Rightarrow> string \<Rightarrow> fs \<times> pyerr option" where
  "write_text s p appnd txt =
     (case lookup s p of
        Some (Dir _) \<Rightarrow> (s, Some IsADirectoryError)
      | Some (File c _) \<Rightarrow>
          if wdeny s p then (s, Some PermissionError)
          else (put p (File ((if appnd then c else []) @ txt) (clock s)) s, None)
      | None \<Rightarrow>
          (case lookup s (parent p) of
             None \<Rightarrow> (s, Some FileNotFoundError)
           | Some (File _ _) \<Rightarrow> (s, Some NotADirectoryError)
           | Some (Dir _) \<Rightarrow>
               if wdeny s p then (s, Some PermissionError)
               else (put p (File txt (clock s)) s, None)))"

text \<open>\<^verbatim>\<open>shutil.copy2(src, dst)\<close>: into \<open>dst\<close> when that is a directory; the copy
  keeps the modification time.\<close>

definition copy2 :: "fs \<Rightarrow> path \<Rightarrow> path \<Rightarrow> fs \<times> pyerr option" where
  "copy2 s src dst =
     (let real_dst = (if is_dir s dst then joinp dst (name src) else dst) in
      case lookup s src of
        None \<Rightarrow> (s, Some FileNotFoundError)
      | Some (Dir _) \<Rightarrow> (s, Some IsADirectoryError)
      | Some (File c t) \<Rightarrow>
          if src = real_dst then (s, Some ShutilError)
          else if rdeny s src then (s, Some PermissionError)
          else if is_dir s real_dst then (s, Some IsADirectoryError)
          else (case lookup s (parent real_dst) of
                  None \<Rightarrow> (s, Some FileNotFoundError)
                | Some (File _ _) \<Rightarrow> (s, Some NotADirectoryError)
                | Some (Dir _) \<Rightarrow>
                    if wdeny s real_dst then (s, Some PermissionError)
                    else (put real_dst (File c t) s, None)))"

text \<open>
  \<^verbatim>\<open>shutil.move(src, dst)\<close>: into \<open>dst\<close> when that is a directory (refused when
  the name is taken there), else a rename that replaces a file at \<open>dst\<close>. When the
  platform refuses to remove the source file, shutil's fallback has copied it before
  the removal fails. A directory moves with its whole tree; a refused move of a
  directory changes nothing here.
\<close>

definition rekey :: "path \<Rightarrow> path \<Rightarrow> path \<Rightarrow> path" where
  "rekey src dst q = dst @ drop (length src) q"

definition shutil_move :: "fs \<Rightarrow> path \<Rightarrow> path \<Rightarrow> fs \<times> pyerr option" where
  "shutil_move s src dst =
     (if is_dir s dst \<and> src = dst then (s, None)
      else
        (let real_dst = (if is_dir s dst then joinp dst (name src) else dst) in
         if is_dir s dst \<and> path_exists s real_dst then (s, Some ShutilError)
         else
           (case lookup s src of
              None \<Rightarrow> (s, Some FileNotFoundError)
            | Some (File c t) \<Rightarrow>
                (case lookup s (parent real_dst) of
                   None \<Rightarrow> (s, Some FileNotFoundError)
                 | Some (File _ _) \<Rightarrow> (s, Some NotADirectoryError)
                 | Some (Dir _) \<Rightarrow>
                     if wdeny s real_dst then (s, Some PermissionError)
                     else if wdeny s src then
                       (if rdeny s src then (s, Some PermissionError)
                        else (put real_dst (File c t) s, Some PermissionError))
                     else (put real_dst (File c t) (remove src s), None))
            | Some (Dir t) \<Rightarrow>
                if src = ''/'' \<or> src = ''.'' \<or> at_or_under src real_dst
                then (s, Some ShutilError)
                else if path_exists s real_dst then (s, Some FileExistsError)
                else
                  (case lookup s (parent real_dst) of
                     None \<Rightarrow> (s, Some FileNotFoundError)
                   | Some (File _ _) \<Rightarrow> (s, Some NotADirectoryError)
                   | Some (Dir _) \<Rightarrow>
                       if wdeny s real_dst \<or> wdeny s src
                          \<or> list_ex (\<lambda>(q, _). at_or_under src q \<and> wdeny s q) (nodes s)
                       then (s, Some PermissionError)
                       else
                         (s\<lparr>nodes :=
                              filter (\<lambda>(q, _). \<not> at_or_under src q) (nodes s)
                              @ map (\<lambda>(q, n). (rekey src real_dst q, n))
                                  (filter (\<lambda>(q, _). at_or_under src q) (nodes s))\<rparr>,
                          None)))))"

section \<open>The undo log and the conflict resolver\<close>

definition UNDO_LOG_FILE :: path where
  "UNDO_LOG_FILE = ''undo.log''"

definition CATEGORIES_FILE :: path where
  "CATEGORIES_FILE = ''categories.json''"

text \<open>\<^verbatim>\<open>log_undo_operation\<close>: one line appended; an \<^verbatim>\<open>IOError\<close> is logged and
  dropped.\<close>

definition log_undo_operation :: "fs \<Rightarrow> string \<Rightarrow> path \<Rightarrow> path \<Rightarrow> fs \<times> pyerr option" where
  "log_undo_operation s action src dst =
     (case write_text s UNDO_LOG_FILE True
             (upper action @ ''|'' @ src @ ''|'' @ dst @ [CHR 0x0A]) of
        (s1, None) \<Rightarrow> (s1, None)
      | (s1, Some e) \<Rightarrow> if is_OSError e then (s1, None) else (s1, Some e))"

text \<open>Decimal numerals read back: \<^verbatim>\<open>str\<close> of a number determines the number.\<close>

definition nat_of_str :: "string \<Rightarrow> nat" where
  "nat_of_str ds = foldl (\<lambda>a c. 10 * a + (of_char c - 48)) 0 ds"

lemma of_char_digit_char: "d < 10 \<Longrightarrow> of_char (digit_char d) = (48::nat) + d"
  by (auto simp: digit_char_def less_Suc_eq numeral_eq_Suc nth_Cons')

lemma nat_of_str_str_nat: "nat_of_str (str_nat n) = n"
proof (induction n rule: str_nat.induct)
  case (1 n)
  show ?case
  proof (cases "n < 10")
    case True
    then show ?thesis
      by (subst str_nat.simps) (simp add: nat_of_str_def of_char_digit_char)
  next
    case False
    have d: "of_char (digit_char (n mod 10)) = (48::nat) + n mod 10"
      by (simp add: of_char_digit_char)
    from False "1" have ih: "nat_of_str (str_nat (n div 10)) = n div 10" by simp
    have "nat_of_str (str_nat n) = 10 * nat_of_str (str_nat (n div 10)) + n mod 10"
      using False by (subst str_nat.simps) (simp add: nat_of_str_def d)
    with ih show ?thesis by simp
  qed
qed

lemma str_nat_inj: "str_nat i = str_nat j \<Longrightarrow> i = j"
  by (metis nat_of_str_str_nat)

text \<open>\<^verbatim>\<open>unique_path\<close>: the candidate \<^verbatim>\<open>parent / f"{stem} ({i}){suffix}"\<close> and the
  loop that probes \<open>i = 1, 2, ...\<close> until one is free.\<close>

definition candidate :: "path \<Rightarrow> string \<Rightarrow> string \<Rightarrow> nat \<Rightarrow> path" where
  "candidate par stm suf i = joinp par (stm @ '' ('' @ str_nat i @ '')'' @ suf)"

lemma candidate_inj: "candidate par stm suf i = candidate par stm suf j \<Longrightarrow> i = j"
proof -
  assume eq: "candidate par stm suf i = candidate par stm suf j"
  let ?c = "\<lambda>k. stm @ '' ('' @ str_nat k @ '')'' @ suf"
  have hd: "hd (?c i) = hd (?c j)" by (cases stm) simp_all
  have ne: "?c i \<noteq> []" "?c j \<noteq> []" by simp_all
  from eq hd ne have "?c i = ?c j"
    by (auto simp: candidate_def joinp_def split: if_splits)
  then have "str_nat i = str_nat j" by simp
  then show ?thesis by (rule str_nat_inj)
qed

lemma finite_existing: "finite {p. path_exists s p}"
proof -
  have "{p. path_exists s p} \<subseteq> insert ''/'' (insert ''.'' (fst ` set (nodes s)))"
    by (auto simp: path_exists_def lookup_def split: if_splits dest: map_of_SomeD
          intro: rev_image_eqI)
  then show ?thesis by (rule finite_subset) simp
qed

lemma finite_candidates: "finite {j. i \<le> j \<and> path_exists s (candidate par stm suf j)}"
proof -
  have "inj (candidate par stm suf)" by (rule injI) (rule candidate_inj)
  then have "finite (candidate par stm suf -` {p. path_exists s p})"
    by (intro finite_vimageI finite_existing)
  moreover have "{j. i \<le> j \<and> path_exists s (candidate par stm suf j)}
                   \<subseteq> candidate par stm suf -` {p. path_exists s p}" by auto
  ultimately show ?thesis by (rule rev_finite_subset)
qed

function unique_loop :: "fs \<Rightarrow> path \<Rightarrow> string \<Rightarrow> string \<Rightarrow> nat \<Rightarrow> path" where
  "unique_loop s par stm suf i =
     (if \<not> path_exists s (candidate par stm suf i) then candidate par stm suf i
      else unique_loop s par stm suf (i + 1))"
  by pat_completeness auto

termination
proof (relation "measure (\<lambda>(s, par, stm, suf, i).
         card {j. i \<le> j \<and> path_exists s (candidate par stm suf j)})")
  show "wf (measure (\<lambda>(s :: fs, par, stm, suf, i).
         card {j. i \<le> j \<and> path_exists s (candidate par stm suf j)}))" by simp
next
  fix s :: fs and par stm suf and i :: nat
  assume ex: "\<not> \<not> path_exists s (candidate par stm suf i)"
  have "{j. i + 1 \<le> j \<and> path_exists s (candidate par stm suf j)}
          \<subset> {j. i \<le> j \<and> path_exists s (candidate par stm suf j)}"
  proof
    show "{j. i + 1 \<le> j \<and> path_exists s (candidate par stm suf j)}
            \<subseteq> {j. i \<le> j \<and> path_exists s (candidate par stm suf j)}" by auto
    have "i \<in> {j. i \<le> j \<and> path_exists s (candidate par stm suf j)}" using ex by simp
    moreover have "i \<notin> {j. i + 1 \<le> j \<and> path_exists s (candidate par stm suf j)}" by simp
    ultimately show "{j. i + 1 \<le> j \<and> path_exists s (candidate par stm suf j)}
            \<noteq> {j. i \<le> j \<and> path_exists s (candidate par stm suf j)}" by blast
  qed
  then have "card {j. i + 1 \<le> j \<and> path_exists s (candidate par stm suf j)}
          < card {j. i \<le> j \<and> path_exists s (candidate par stm suf j)}"
    by (intro psubset_card_mono finite_candidates)
  then show "((s, par, stm, suf, i + 1), (s, par, stm, suf, i))
      \<in> measure (\<lambda>(s, par, stm, suf, i).
           card {j. i \<le> j \<and> path_exists s (candidate par stm suf j)})"
    by simp
qed

declare unique_loop.simps [simp del]

definition unique_path :: "fs \<Rightarrow> path \<Rightarrow> path" where
  "unique_path s p =
     (if \<not> path_exists s p then p
      else unique_loop s (parent p) (stem p) (suffix p) 1)"

text \<open>\<^verbatim>\<open>resolve_conflict\<close>: the path to write to, \<open>None\<close> for "skip", or the
  \<^verbatim>\<open>ValueError\<close> of an unknown policy.\<close>

definition resolve_conflict :: "fs \<Rightarrow> path \<Rightarrow> string \<Rightarrow> fs \<times> (pyerr + path option)" where
  "resolve_conflict s destination conflict_policy =
     (if \<not> path_exists s destination then (s, Inr (Some destination))
      else if conflict_policy = ''skip'' then (s, Inr None)
      else if conflict_policy = ''overwrite'' then
        (case (if path_exists s destination
               then (if is_dir s destination then rmtree s destination
                     else unlink s destination True)
               else (s, None)) of
           (s1, None) \<Rightarrow> (s1, Inr (Some destination))
         | (s1, Some e) \<Rightarrow>
             if is_OSError e then (s1, Inr (Some destination)) else (s1, Inl e))
      else if conflict_policy = ''rename'' then (s, Inr (Some (unique_path s destination)))
      else (s, Inl ValueError))"

section \<open>The transfer executor\<close>

text \<open>
  \<^verbatim>\<open>do_transfer\<close>. The body of its \<^verbatim>\<open>try\<close> first: the parent of the
  destination is created before the dry-run flag is looked at, and the action is
  checked after it.
\<close>

definition do_transfer_try :: "fs \<Rightarrow> path \<Rightarrow> path \<Rightarrow> string \<Rightarrow> bool \<Rightarrow> fs \<times> (pyerr + bool)" where
  "do_transfer_try s src dst action dry_run =
     (case mkdir s (parent dst) of
        (s1, Some e) \<Rightarrow> (s1, Inl e)
      | (s1, None) \<Rightarrow>
          if dry_run then (s1, Inr True)
          else
            (case (if action = ''move'' then shutil_move s1 src dst
                   else if action = ''copy'' then copy2 s1 src dst
                   else (s1, Some ValueError)) of
               (s2, Some e) \<Rightarrow> (s2, Inl e)
             | (s2, None) \<Rightarrow>
                 (case log_undo_operation s2 action src dst of
                    (s3, Some e) \<Rightarrow> (s3, Inl e)
                  | (s3, None) \<Rightarrow> (s3, Inr True))))"

text \<open>The three handlers (\<^verbatim>\<open>PermissionError\<close>, \<^verbatim>\<open>shutil.Error\<close>, any other
  \<^verbatim>\<open>Exception\<close>) differ in the message they log; each returns \<open>False\<close>.\<close>

definition do_transfer :: "fs \<Rightarrow> path \<Rightarrow> path \<Rightarrow> string \<Rightarrow> bool \<Rightarrow> fs \<times> (pyerr + bool)" where
  "do_transfer s src dst action dry_run =
     (case do_transfer_try s src dst action dry_run of
        (s1, Inr b) \<Rightarrow> (s1, Inr b)
      | (s1, Inl e) \<Rightarrow>
          if e = PermissionError then (s1, Inr False)
          else if e = ShutilError then (s1, Inr False)
          else (s1, Inr False))"

section \<open>The extension index\<close>

text \<open>
  A category map is a Python dict from category name to a set of extensions. The
  index builder iterates both, so the model keeps them in iteration order: an
  association list of categories, each with the list of its extensions.
\<close>

type_synonym categories = "(string \<times> string list) list"

text \<open>The body of the inner loop of \<^verbatim>\<open>build_ext_index\<close>, on the pair of the index
  and the list of duplicate findings.\<close>

definition add_ext ::
  "string \<Rightarrow> (string \<rightharpoonup> string) \<times> string list \<Rightarrow> string
     \<Rightarrow> (string \<rightharpoonup> string) \<times> string list" where
  "add_ext cat st e =
     (case st of (idx, duplicates) \<Rightarrow>
        if e \<noteq> [] then
          (let e_lower = lower e in
           case idx e_lower of
             Some first \<Rightarrow>
               (idx, duplicates @
                  [e_lower @ '' in both '' @ [CHR 0x27] @ first @ [CHR 0x27]
                     @ '' and '' @ [CHR 0x27] @ cat @ [CHR 0x27]])
           | None \<Rightarrow> (idx(e_lower \<mapsto> cat), duplicates))
        else (idx, duplicates))"

definition build_ext_index_loops ::
  "categories \<Rightarrow> (string \<rightharpoonup> string) \<times> string list" where
  "build_ext_index_loops categories =
     foldl (\<lambda>st (cat, exts). foldl (add_ext cat) st exts) (Map.empty, []) categories"

definition build_ext_index :: "categories \<Rightarrow> (string \<rightharpoonup> string)" where
  "build_ext_index categories = fst (build_ext_index_loops categories)"




section \<open>The classifiers\<close>

text \<open>
  The keyword arguments of a run (\<^verbatim>\<open>**kwargs\<close> of \<^verbatim>\<open>process_directory\<close>, passed
  on to every classifier). The keys the code reads with \<^verbatim>\<open>kwargs['...']\<close> are
  taken to be given; the optional ones are options. The cancellation event is set
  by another thread; the run only asks \<^verbatim>\<open>is_set()\<close> before each file, so the event
  is the answer it gives before file number \<open>idx\<close>. A progress callback returns or
  raises.
\<close>

record kwargs =
  source :: path
  dest :: path
  mode :: string
  action :: string
  conflict_policy :: string
  recursive :: bool
  dry_run :: bool
  skip_unknown :: bool
  files :: "path list option"
  categories :: "categories option"
  cancel_event :: "(nat \<Rightarrow> bool) option"
  on_progress :: "(nat \<Rightarrow> nat \<Rightarrow> path \<Rightarrow> bool option \<Rightarrow> pyerr option) option"

text \<open>\<^verbatim>\<open>Path.stat()\<close>, with the size it reports.\<close>

definition stat :: "fs \<Rightarrow> path \<Rightarrow> pyerr + node" where
  "stat s p = (case lookup s p of None \<Rightarrow> Inl FileNotFoundError | Some n \<Rightarrow> Inr n)"

definition st_size :: "fs \<Rightarrow> node \<Rightarrow> nat" where
  "st_size s n = (case n of File c _ \<Rightarrow> length c | Dir _ \<Rightarrow> dir_size s)"

text \<open>The lines every classifier ends with: resolve the conflict, stop on "skip",
  transfer.\<close>

definition resolve_and_transfer ::
  "fs \<Rightarrow> path \<Rightarrow> path \<Rightarrow> kwargs \<Rightarrow> fs \<times> (pyerr + bool option)" where
  "resolve_and_transfer s file dest_file kw =
     (case resolve_conflict s dest_file (conflict_policy kw) of
        (s1, Inl e) \<Rightarrow> (s1, Inl e)
      | (s1, Inr None) \<Rightarrow> (s1, Inr None)
      | (s1, Inr (Some final_dest)) \<Rightarrow>
          (case do_transfer s1 file final_dest (action kw) (dry_run kw) of
             (s2, Inl e) \<Rightarrow> (s2, Inl e)
           | (s2, Inr b) \<Rightarrow> (s2, Inr (Some b))))"

text \<open>\<^verbatim>\<open>except OSError: return False\<close> followed by
  \<^verbatim>\<open>except Exception: return False\<close>.\<close>

definition except_false :: "fs \<times> (pyerr + bool option) \<Rightarrow> fs \<times> (pyerr + bool option)" where
  "except_false r =
     (case r of
        (s1, Inl e) \<Rightarrow> if is_OSError e then (s1, Inr (Some False)) else (s1, Inr (Some False))
      | (s1, Inr b) \<Rightarrow> (s1, Inr b))"

definition organize_by_type ::
  "fs \<Rightarrow> path \<Rightarrow> path \<Rightarrow> (string \<rightharpoonup> string) \<Rightarrow> kwargs \<Rightarrow> fs \<times> (pyerr + bool option)" where
  "organize_by_type s file dest_root ext_index kw =
     (let file_ext = lower (suffix file) in
      case ext_index file_ext of
        None \<Rightarrow>
          if skip_unknown kw then (s, Inr None)
          else resolve_and_transfer s file (joinp (joinp dest_root ''Others'') (name file)) kw
      | Some cat \<Rightarrow> resolve_and_transfer s file (joinp (joinp dest_root cat) (name file)) kw)"

definition organize_by_name ::
  "fs \<Rightarrow> path \<Rightarrow> path \<Rightarrow> (string \<rightharpoonup> string) \<Rightarrow> kwargs \<Rightarrow> fs \<times> (pyerr + bool option)" where
  "organize_by_name s file dest_root ext_index kw =
     resolve_and_transfer s file (joinp (joinp dest_root (stem file)) (name file)) kw"

text \<open>\<^verbatim>\<open>strftime('%B')\<close> in the default locale.\<close>

definition month_name :: "nat \<Rightarrow> string" where
  "month_name m =
     (if 1 \<le> m \<and> m \<le> 12
      then [''January'', ''February'', ''March'', ''April'', ''May'', ''June'', ''July'',
            ''August'', ''September'', ''October'', ''November'', ''December''] ! (m - 1)
      else [])"

definition organize_by_date ::
  "fs \<Rightarrow> path \<Rightarrow> path \<Rightarrow> (string \<rightharpoonup> string) \<Rightarrow> kwargs \<Rightarrow> fs \<times> (pyerr + bool option)" where
  "organize_by_date s file dest_root ext_index kw =
     except_false
       (case stat s file of
          Inl e \<Rightarrow> (s, Inl e)
        | Inr n \<Rightarrow>
            (case mdate n of (year, month, day) \<Rightarrow>
               (let dest_dir = joinp (joinp dest_root (str_nat year))
                                 (pad2 month @ ''-'' @ month_name month)
                in resolve_and_transfer s file (joinp dest_dir (name file)) kw)))"

definition organize_by_day ::
  "fs \<Rightarrow> path \<Rightarrow> path \<Rightarrow> (string \<rightharpoonup> string) \<Rightarrow> kwargs \<Rightarrow> fs \<times> (pyerr + bool option)" where
  "organize_by_day s file dest_root ext_index kw =
     except_false
       (case stat s file of
          Inl e \<Rightarrow> (s, Inl e)
        | Inr n \<Rightarrow>
            (case mdate n of (year, month, day) \<Rightarrow>
               (let dest_dir = joinp (joinp (joinp dest_root (str_nat year)) (pad2 month))
                                 (pad2 day)
                in resolve_and_transfer s file (joinp dest_dir (name file)) kw)))"

text \<open>
  The size classes. \<^verbatim>\<open>st_size / (1024 * 1024)\<close> is Python's true division; on the
  sizes a file can have the float quotient compares with 1 and with 100 as the exact
  quotient does, which is what the model computes.
\<close>

definition size_category :: "nat \<Rightarrow> string" where
  "size_category size_bytes =
     (let size_mb = (of_nat size_bytes :: rat) / (1024 * 1024) in
      if size_mb < 1 then ''Small (Under 1MB)''
      else if size_mb < 100 then ''Medium (1-100MB)''
      else ''Large (Over 100MB)'')"

definition organize_by_size ::
  "fs \<Rightarrow> path \<Rightarrow> path \<Rightarrow> (string \<rightharpoonup> string) \<Rightarrow> kwargs \<Rightarrow> fs \<times> (pyerr + bool option)" where
  "organize_by_size s file dest_root ext_index kw =
     except_false
       (case stat s file of
          Inl e \<Rightarrow> (s, Inl e)
        | Inr n \<Rightarrow>
            (let cat = size_category (st_size s n)
             in resolve_and_transfer s file (joinp (joinp dest_root cat) (name file)) kw))"

definition organize_by_first_letter ::
  "fs \<Rightarrow> path \<Rightarrow> path \<Rightarrow> (string \<rightharpoonup> string) \<Rightarrow> kwargs \<Rightarrow> fs \<times> (pyerr + bool option)" where
  "organize_by_first_letter s file dest_root ext_index kw =
     (let first_letter = (if stem file \<noteq> [] then upper [hd (stem file)] else ''#'');
          cat = (if first_letter \<noteq> [] \<and> list_all isalpha_char first_letter
                 then first_letter else ''#'')
      in resolve_and_transfer s file (joinp (joinp dest_root cat) (name file)) kw)"

definition ORGANIZERS ::
  "string \<rightharpoonup> (fs \<Rightarrow> path \<Rightarrow> path \<Rightarrow> (string \<rightharpoonup> string) \<Rightarrow> kwargs
               \<Rightarrow> fs \<times> (pyerr + bool option))" where
  "ORGANIZERS =
     map_of [(''type'', organize_by_type), (''name'', organize_by_name),
             (''date'', organize_by_date), (''day'', organize_by_day),
             (''size'', organize_by_size), (''first_letter'', organize_by_first_letter)]"

section \<open>The undo engine\<close>


record undo_stats =
  total :: nat
  succeeded :: nat
  failed :: nat





section \<open>The orchestrator\<close>

text \<open>What the run takes from the platform and from the json library.\<close>

record env =
  platform_system :: string
  home :: path
  json_dump :: "categories \<Rightarrow> string"
  json_load :: "string \<Rightarrow> pyerr + categories"

definition DEFAULT_CATEGORIES :: categories where
  "DEFAULT_CATEGORIES =
     [(''Images'', [''.jpg'', ''.jpeg'', ''.png'', ''.gif'', ''.bmp'', ''.tiff'', ''.webp'',
                    ''.heic'', ''.svg'', ''.ico'']),
      (''Videos'', [''.mp4'', ''.mkv'', ''.avi'', ''.mov'', ''.wmv'', ''.flv'', ''.webm'',
                    ''.m4v'', ''.mpeg'', ''.mpg'']),
      (''Audio'', [''.mp3'', ''.wav'', ''.aac'', ''.ogg'', ''.flac'', ''.m4a'', ''.wma'',
                   ''.opus'']),
      (''Documents'', [''.pdf'', ''.docx'', ''.doc'', ''.txt'', ''.pptx'', ''.ppt'', ''.xlsx'',
                       ''.xls'', ''.odt'', ''.csv'', ''.rtf'', ''.tex'']),
      (''Archives'', [''.zip'', ''.rar'', ''.7z'', ''.tar'', ''.gz'', ''.bz2'', ''.xz'',
                      ''.iso'']),
      (''Code'', [''.py'', ''.js'', ''.html'', ''.css'', ''.java'', ''.cpp'', ''.c'', ''.h'',
                  ''.json'', ''.xml'', ''.yaml'', ''.yml'']),
      (''Executables'', [''.exe'', ''.msi'', ''.apk'', ''.appimage'', ''.dmg'', ''.deb'',
                         ''.rpm'']),
      (''Others'', [])]"

text \<open>\<^verbatim>\<open>load_categories\<close>: the defaults are written when there is no file;
  \<^verbatim>\<open>JSONDecodeError\<close> and \<^verbatim>\<open>IOError\<close> fall back to the defaults, anything
  else the parse raises leaves the function.\<close>

definition load_categories :: "env \<Rightarrow> fs \<Rightarrow> fs \<times> (pyerr + categories)" where
  "load_categories ev s =
     (if \<not> path_exists s CATEGORIES_FILE then
        (case write_text s CATEGORIES_FILE False (json_dump ev DEFAULT_CATEGORIES) of
           (s1, None) \<Rightarrow> (s1, Inr DEFAULT_CATEGORIES)
         | (s1, Some e) \<Rightarrow>
             if is_OSError e then (s1, Inr DEFAULT_CATEGORIES) else (s1, Inl e))
      else
        (case (case read_text s CATEGORIES_FILE of
                 Inl e \<Rightarrow> Inl e
               | Inr txt \<Rightarrow> json_load ev txt) of
           Inl e \<Rightarrow>
             if e = JSONDecodeError \<or> is_OSError e then (s, Inr DEFAULT_CATEGORIES)
             else (s, Inl e)
         | Inr cats \<Rightarrow>
             (s, Inr (if ''Others'' \<notin> fst ` set cats then cats @ [(''Others'', [])]
                      else cats))))"

text \<open>\<^verbatim>\<open>validate_paths\<close>.\<close>

definition system_dirs :: "env \<Rightarrow> path list" where
  "system_dirs ev =
     (if platform_system ev = ''Windows''
      then [joinp (home ev) ''AppData'', ''C:/Windows'', ''C:/Program Files'',
            ''C:/Program Files (x86)'']
      else if platform_system ev = ''Darwin'' then [''/System'', ''/Library'', ''/usr'']
      else [''/usr'', ''/bin'', ''/sbin'', ''/etc''])"

definition validate_paths :: "env \<Rightarrow> fs \<Rightarrow> path \<Rightarrow> path \<Rightarrow> bool \<times> string" where
  "validate_paths ev s source_dir dest_dir =
     (case find (\<lambda>sys_dir. path_exists s sys_dir
                    \<and> (dest_dir = sys_dir \<or> is_under sys_dir dest_dir)) (system_dirs ev) of
        Some sys_dir \<Rightarrow> (False, ''Cannot organize into system directory: '' @ sys_dir)
      | None \<Rightarrow>
          if source_dir = dest_dir then (False, ''Source and destination cannot be the same.'')
          else if \<not> path_exists s source_dir
          then (False, ''Source directory does not exist: '' @ source_dir)
          else if \<not> is_dir s source_dir
          then (False, ''Source is not a directory: '' @ source_dir)
          else (True, []))"

text \<open>\<^verbatim>\<open>list_files\<close>: the entries below the source (one level or all), in the order
  the file system lists them, without the excluded subtree, regular files only.\<close>

definition list_files :: "fs \<Rightarrow> path \<Rightarrow> bool \<Rightarrow> path option \<Rightarrow> path list" where
  "list_files s source_dir recur exclude_dir =
     (let pattern =
            filter (\<lambda>p. is_dir s source_dir
                         \<and> (if recur then is_under source_dir p
                             else p \<noteq> source_dir \<and> parent p = source_dir))
              (remdups (map fst (nodes s)))
      in filter (\<lambda>p. (case exclude_dir of
                          Some ex \<Rightarrow> \<not> (p = ex \<or> is_under ex p)
                        | None \<Rightarrow> True)
                     \<and> is_file s p) pattern)"

record run_stats = undo_stats +
  processed :: nat
  skipped :: nat
  error :: "string option"

definition zero_stats :: run_stats where
  "zero_stats =
     \<lparr>total = 0, succeeded = 0, failed = 0, processed = 0, skipped = 0, error = None\<rparr>"

text \<open>The loop of \<^verbatim>\<open>process_directory\<close> over \<^verbatim>\<open>enumerate(files, start=1)\<close>: the
  cancellation event is asked first; an exception of the classifier or of the progress
  callback leaves the loop.\<close>

fun process_loop ::
  "kwargs \<Rightarrow> (fs \<Rightarrow> path \<Rightarrow> path \<Rightarrow> (string \<rightharpoonup> string) \<Rightarrow> kwargs \<Rightarrow> fs \<times> (pyerr + bool option))
     \<Rightarrow> (string \<rightharpoonup> string) \<Rightarrow> nat \<Rightarrow> path list \<Rightarrow> fs \<Rightarrow> run_stats
     \<Rightarrow> fs \<times> (pyerr + run_stats)" where
  "process_loop kw organizer_func ext_index idx [] s st = (s, Inr st)"
| "process_loop kw organizer_func ext_index idx (item # rest) s st =
     (if (case cancel_event kw of Some is_set \<Rightarrow> is_set idx | None \<Rightarrow> False)
      then (s, Inr st)
      else
        (case organizer_func s item (dest kw) ext_index kw of
           (s1, Inl e) \<Rightarrow> (s1, Inl e)
         | (s1, Inr result) \<Rightarrow>
             (let st1 = st\<lparr>processed := processed st + 1\<rparr>;
                  st2 = (case result of
                           None \<Rightarrow> st1\<lparr>skipped := skipped st1 + 1\<rparr>
                         | Some True \<Rightarrow> st1\<lparr>succeeded := succeeded st1 + 1\<rparr>
                         | Some False \<Rightarrow> st1\<lparr>failed := failed st1 + 1\<rparr>)
              in case (case on_progress kw of
                         Some callback \<Rightarrow> callback idx (total st) item result
                       | None \<Rightarrow> None) of
                   Some e \<Rightarrow> (s1, Inl e)
                 | None \<Rightarrow> process_loop kw organizer_func ext_index (idx + 1) rest s1 st2)))"

text \<open>
  \<^verbatim>\<open>process_directory\<close>. The defaults of \<^verbatim>\<open>kwargs.get('files', ...)\<close> and
  \<^verbatim>\<open>kwargs.get('categories', ...)\<close> are evaluated whether or not the key is
  given, so the categories file is loaded (and created when missing) on every run that
  has a file to process.
\<close>

definition process_directory :: "env \<Rightarrow> fs \<Rightarrow> kwargs \<Rightarrow> fs \<times> (pyerr + run_stats)" where
  "process_directory ev s kw =
     (case validate_paths ev s (source kw) (dest kw) of
        (False, error_msg) \<Rightarrow> (s, Inr (zero_stats\<lparr>error := Some error_msg\<rparr>))
      | (True, _) \<Rightarrow>
          (case ORGANIZERS (mode kw) of
             None \<Rightarrow>
               (s, Inr (zero_stats\<lparr>error := Some (''Unknown organization mode: '' @ mode kw)\<rparr>))
           | Some organizer_func \<Rightarrow>
               (let listed = list_files s (source kw) (recursive kw) (Some (dest kw));
                    file_list = (case files kw of Some given \<Rightarrow> given | None \<Rightarrow> listed);
                    n = length file_list
                in if n = 0 then (s, Inr zero_stats)
                   else
                     (case load_categories ev s of
                        (s1, Inl e) \<Rightarrow> (s1, Inl e)
                      | (s1, Inr loaded) \<Rightarrow>
                          (let cats = (case categories kw of
                                         Some given \<Rightarrow> given
                                       | None \<Rightarrow> loaded);
                               ext_index = (if mode kw = ''type'' then build_ext_index cats
                                            else Map.empty)
                           in process_loop kw organizer_func ext_index 1 file_list s1
                                (zero_stats\<lparr>total := n\<rparr>))))))"

section \<open>Notions the statements use\<close>

text \<open>\<open>adds_dirs s s' d\<close>: from \<open>s\<close> to \<open>s'\<close> nothing that existed has changed, and
  whatever is new is a directory at \<open>d\<close> or above it.\<close>

definition adds_dirs :: "fs \<Rightarrow> fs \<Rightarrow> path \<Rightarrow> bool" where
  "adds_dirs s s' d =
     (wdeny s' = wdeny s \<and> rdeny s' = rdeny s \<and> clock s' = clock s
      \<and> dir_size s' = dir_size s
      \<and> (\<forall>p. path_exists s p \<longrightarrow> lookup s' p = lookup s p)
      \<and> (\<forall>p. \<not> path_exists s p \<longrightarrow> path_exists s' p \<longrightarrow> is_dir s' p \<and> at_or_under p d))"



definition counted :: "run_stats \<Rightarrow> bool" where
  "counted st = (processed st = succeeded st + failed st + skipped st)"




section \<open>Concrete states and runs\<close>

text \<open>An empty file system on which the platform refuses nothing.\<close>

definition fs0 :: fs where
  "fs0 = \<lparr>nodes = [], wdeny = (\<lambda>p. False), rdeny = (\<lambda>p. False), dir_size = 4096,
          clock = (2024, 1, 1)\<rparr>"

text \<open>A directory with \<open>file.txt\<close> and its first two numbered siblings.\<close>

definition fs_files3 :: fs where
  "fs_files3 =
     fs0\<lparr>nodes := [(''/d'', Dir (2024, 1, 1)),
                    (''/d/file.txt'', File ''a'' (2024, 1, 1)),
                    (''/d/file (1).txt'', File ''b'' (2024, 1, 1)),
                    (''/d/file (2).txt'', File ''c'' (2024, 1, 1))]\<rparr>"

text \<open>A source directory with one file, and an undo log left by an earlier run.\<close>

definition fs_run :: fs where
  "fs_run =
     fs0\<lparr>nodes := [(''/s'', Dir (2024, 1, 1)),
                    (''/s/a.txt'', File ''content'' (2023, 10, 26)),
                    (''undo.log'', File (''MOVE|/old/x|/new/x'' @ [CHR 0x0A]) (2024, 1, 1))]\<rparr>"

text \<open>The same, with a regular file where the destination's directory would go.\<close>

definition fs_blocked :: fs where
  "fs_blocked = fs_run\<lparr>nodes := nodes fs_run @ [(''/d'', File ''x'' (2024, 1, 1))]\<rparr>"


text \<open>A file of exactly 1 MiB, and a run that moves by size.\<close>

definition fs_big :: fs where
  "fs_big =
     fs0\<lparr>nodes := [(''/s'', Dir (2024, 1, 1)),
                    (''/s/big.bin'', File (replicate 1048576 (CHR ''x'')) (2024, 1, 1))]\<rparr>"

definition kw_move :: kwargs where
  "kw_move =
     \<lparr>source = ''/s'', dest = ''/out'', mode = ''size'', action = ''move'',
      conflict_policy = ''rename'', recursive = False, dry_run = False,
      skip_unknown = False, files = None, categories = None, cancel_event = None,
      on_progress = None\<rparr>"





text \<open>
  A run by modification date over two named files, cancelled before the second one,
  on a Linux machine with no categories file; the log of an earlier run is still there.
\<close>

definition env0 :: env where
  "env0 = \<lparr>platform_system = ''Linux'', home = ''/home/u'', json_dump = (\<lambda>c. ''{}''),
           json_load = (\<lambda>t. Inl JSONDecodeError)\<rparr>"

definition kw_date :: kwargs where
  "kw_date =
     \<lparr>source = ''/s'', dest = ''/out'', mode = ''date'', action = ''move'',
      conflict_policy = ''rename'', recursive = False, dry_run = False,
      skip_unknown = False, files = Some [''/s/a.txt'', ''/s/b.txt''],
      categories = Some [], cancel_event = Some (\<lambda>idx. 2 \<le> idx), on_progress = None\<rparr>"

text \<open>The state of that run after the categories file was written, and at its end.\<close>

definition fs_cats :: fs where
  "fs_cats = put ''categories.json'' (File ''{}'' (2024, 1, 1)) fs_run"

definition fs_after_run :: fs where
  "fs_after_run =
     put ''undo.log''
       (File ''MOVE|/old/x|/new/x\<newline>MOVE|/s/a.txt|/out/2023/10-October/a.txt\<newline>''
          (2024, 1, 1))
       (put ''/out/2023/10-October/a.txt'' (File ''content'' (2023, 10, 26))
          (remove ''/s/a.txt''
             (put ''/out/2023/10-October'' (Dir (2024, 1, 1))
                (put ''/out/2023'' (Dir (2024, 1, 1))
                   (put ''/out'' (Dir (2024, 1, 1)) fs_cats)))))"

section \<open>Properties\<close>

subsection \<open>The conflict resolver\<close>

lemma unique_loop_skip:
  "\<forall>j. i \<le> j \<and> j < k \<longrightarrow> path_exists s (candidate par stm suf j) \<Longrightarrow> i \<le> k \<Longrightarrow>
   unique_loop s par stm suf i = unique_loop s par stm suf k"
proof (induction "k - i" arbitrary: i)
  case 0
  then show ?case by simp
next
  case (Suc d)
  then have lt: "i < k" by simp
  with Suc.prems have ex: "path_exists s (candidate par stm suf i)" by simp
  have "unique_loop s par stm suf i = unique_loop s par stm suf (i + 1)"
    using ex by (subst unique_loop.simps) simp
  also have "\<dots> = unique_loop s par stm suf k"
    using Suc.hyps(2) Suc.prems lt by (intro Suc.hyps(1)) auto
  finally show ?case .
qed

text \<open>
  Claim C7. When the destination \<open>p\<close> exists and, of its numbered siblings, exactly
  \<open>p (1)\<close> to \<open>p (N)\<close> exist, the rename policy answers \<open>p (N+1)\<close>, and leaves
  the file system as it was. The sibling \<open>p (i)\<close> is
  \<^verbatim>\<open>parent / f"{stem} ({i}){suffix}"\<close>.
\<close>

theorem resolve_conflict_rename_next:
  assumes "path_exists s p"
    and "\<forall>i. 1 \<le> i \<longrightarrow>
           (path_exists s (candidate (parent p) (stem p) (suffix p) i) \<longleftrightarrow> i \<le> N)"
  shows "resolve_conflict s p ''rename''
           = (s, Inr (Some (candidate (parent p) (stem p) (suffix p) (N + 1))))"
proof -
  let ?c = "candidate (parent p) (stem p) (suffix p)"
  have "unique_loop s (parent p) (stem p) (suffix p) 1
          = unique_loop s (parent p) (stem p) (suffix p) (N + 1)"
    using assms(2) by (intro unique_loop_skip) auto
  also have "\<dots> = ?c (N + 1)"
    using assms(2) by (subst unique_loop.simps) simp
  finally show ?thesis
    using assms(1) by (simp add: resolve_conflict_def unique_path_def)
qed

lemma cand_file_txt:
  "candidate (parent ''/d/file.txt'') (stem ''/d/file.txt'') (suffix ''/d/file.txt'') i
     = ''/d/file ('' @ str_nat i @ '').txt''"
  by (simp add: candidate_def parent_def stem_def suffix_def name_def rfind_dot_def joinp_def)

lemma str_nat_1: "str_nat 1 = ''1''" and str_nat_2: "str_nat 2 = ''2''"
  and str_nat_3: "str_nat 3 = ''3''"
  by (simp_all add: str_nat.simps digit_char_def)

lemma str_nat_eq_iff: "str_nat i = str_nat j \<longleftrightarrow> i = j"
  using str_nat_inj by auto

lemma fs_files3_siblings:
  "1 \<le> i \<Longrightarrow>
   path_exists fs_files3
     (candidate (parent ''/d/file.txt'') (stem ''/d/file.txt'') (suffix ''/d/file.txt'') i)
   \<longleftrightarrow> i \<le> 2"
proof -
  assume i: "1 \<le> i"
  have "path_exists fs_files3 (''/d/file ('' @ str_nat i @ '').txt'')
          \<longleftrightarrow> str_nat i = ''1'' \<or> str_nat i = ''2''"
    by (auto simp: path_exists_def lookup_def fs_files3_def fs0_def)
  also have "\<dots> \<longleftrightarrow> str_nat i = str_nat 1 \<or> str_nat i = str_nat 2"
    by (simp only: str_nat_1 str_nat_2)
  also have "\<dots> \<longleftrightarrow> i \<le> 2"
    using i unfolding str_nat_eq_iff by auto
  finally show ?thesis by (simp only: cand_file_txt)
qed

theorem resolve_conflict_rename_next_witness:
  "path_exists fs_files3 ''/d/file.txt''
   \<and> resolve_conflict fs_files3 ''/d/file.txt'' ''rename''
       = (fs_files3, Inr (Some ''/d/file (3).txt''))"
proof -
  have ex: "path_exists fs_files3 ''/d/file.txt''"
    by (simp add: path_exists_def lookup_def fs_files3_def fs0_def)
  have sib: "\<forall>i. 1 \<le> i \<longrightarrow>
      (path_exists fs_files3
         (candidate (parent ''/d/file.txt'') (stem ''/d/file.txt'') (suffix ''/d/file.txt'') i)
       \<longleftrightarrow> i \<le> 2)"
    using fs_files3_siblings by blast
  have "resolve_conflict fs_files3 ''/d/file.txt'' ''rename''
          = (fs_files3, Inr (Some (candidate (parent ''/d/file.txt'') (stem ''/d/file.txt'')
                                     (suffix ''/d/file.txt'') (2 + 1))))"
    by (rule resolve_conflict_rename_next [OF ex sib])
  then show ?thesis
    using ex by (simp add: cand_file_txt str_nat_3)
qed

text \<open>
  Claim C4, as the code has it. An unknown conflict policy raises
  \<^verbatim>\<open>ValueError\<close> exactly when the destination exists; a destination that does not
  exist is returned unchanged before the policy is looked at. The file system is
  untouched either way.
\<close>

theorem resolve_conflict_unknown_policy:
  assumes "policy \<notin> {''skip'', ''overwrite'', ''rename''}"
  shows "resolve_conflict s destination policy
           = (s, if path_exists s destination then Inl ValueError
                 else Inr (Some destination))"
  using assms by (simp add: resolve_conflict_def)

theorem resolve_conflict_unknown_policy_witness:
  "''invalid_policy'' \<notin> {''skip'', ''overwrite'', ''rename''}
   \<and> path_exists fs_files3 ''/d/file.txt''
   \<and> resolve_conflict fs_files3 ''/d/file.txt'' ''invalid_policy''
       = (fs_files3, Inl ValueError)"
proof -
  have a: "''invalid_policy'' \<notin> {''skip'', ''overwrite'', ''rename''}" by simp
  have ex: "path_exists fs_files3 ''/d/file.txt''"
    by (simp add: path_exists_def lookup_def fs_files3_def fs0_def)
  show ?thesis
    using a ex resolve_conflict_unknown_policy [OF a, of fs_files3 "''/d/file.txt''"]
    by simp
qed

text \<open>The claim as stated fails where the destination is new: no error is raised.\<close>

theorem resolve_conflict_unknown_policy_counterexample:
  "snd (resolve_conflict fs_files3 ''/d/newfile.txt'' ''invalid_policy'')
     = Inr (Some ''/d/newfile.txt'')"
  by (simp add: resolve_conflict_def path_exists_def lookup_def fs_files3_def fs0_def)

subsection \<open>What creating directories can change\<close>

lemma map_of_filter_key:
  "map_of (filter (\<lambda>(q, _). P q) xs) k = (if P k then map_of xs k else None)"
  by (induction xs) auto

lemma lookup_put:
  "lookup (put p n s) q =
     (if q = ''/'' \<or> q = ''.'' then Some (Dir (clock s))
      else if q = p then Some n else lookup s q)"
  by (simp add: lookup_def put_def map_of_filter_key map_add_def split: option.splits)

lemma lookup_special [simp]:
  "lookup s ''/'' = Some (Dir (clock s))" "lookup s ''.'' = Some (Dir (clock s))"
  by (simp_all add: lookup_def)

lemma lookup_remove:
  "lookup (remove p s) q =
     (if q = ''/'' \<or> q = ''.'' then Some (Dir (clock s))
      else if q = p then None else lookup s q)"
  by (simp add: lookup_def remove_def map_of_filter_key)

lemma put_fields [simp]:
  "wdeny (put p n s) = wdeny s" "rdeny (put p n s) = rdeny s"
  "clock (put p n s) = clock s" "dir_size (put p n s) = dir_size s"
  by (simp_all add: put_def)

lemma remove_fields [simp]:
  "wdeny (remove p s) = wdeny s" "rdeny (remove p s) = rdeny s"
  "clock (remove p s) = clock s" "dir_size (remove p s) = dir_size s"
  by (simp_all add: remove_def)

lemma adds_dirs_refl: "adds_dirs s s d"
  by (simp add: adds_dirs_def)

lemma adds_dirs_trans_parent:
  assumes "adds_dirs s s1 (parent d)" "adds_dirs s1 s2 d" "parent d \<noteq> d"
  shows "adds_dirs s s2 d"
proof -
  have "parents d = parent d # parents (parent d)"
    using assms(3) by (subst parents.simps) (simp add: Let_def)
  then have up: "at_or_under p (parent d) \<Longrightarrow> at_or_under p d" for p
    by (auto simp: at_or_under_def is_under_def)
  have keep: "lookup s2 p = lookup s p" if "path_exists s p" for p
  proof -
    from that assms(1) have "lookup s1 p = lookup s p" by (simp add: adds_dirs_def)
    moreover from this that have "path_exists s1 p" by (simp add: path_exists_def)
    with assms(2) have "lookup s2 p = lookup s1 p" by (simp add: adds_dirs_def)
    ultimately show ?thesis by simp
  qed
  have new: "is_dir s2 p \<and> at_or_under p d" if "\<not> path_exists s p" "path_exists s2 p" for p
  proof (cases "path_exists s1 p")
    case True
    with assms(1) that(1) have "is_dir s1 p \<and> at_or_under p (parent d)"
      by (simp add: adds_dirs_def)
    moreover from True assms(2) have "lookup s2 p = lookup s1 p" by (simp add: adds_dirs_def)
    ultimately show ?thesis using up by (simp add: is_dir_def)
  next
    case False
    with assms(2) that(2) show ?thesis by (simp add: adds_dirs_def)
  qed
  from assms(1,2) have "wdeny s2 = wdeny s" "rdeny s2 = rdeny s" "clock s2 = clock s"
    "dir_size s2 = dir_size s" by (simp_all add: adds_dirs_def)
  with keep new show ?thesis unfolding adds_dirs_def by blast
qed

lemma os_mkdir_cases:
  "os_mkdir s d = (s', r) \<Longrightarrow>
   (s' = s \<and> r \<noteq> None) \<or> (s' = put d (Dir (clock s)) s \<and> r = None \<and> \<not> path_exists s d)"
  by (auto simp: os_mkdir_def split: option.splits node.splits if_splits)

lemma put_adds: "\<not> path_exists s d \<Longrightarrow> adds_dirs s (put d (Dir t) s) d"
  unfolding adds_dirs_def path_exists_def is_dir_def at_or_under_def
  by (auto simp: lookup_put)

lemma os_mkdir_adds: "os_mkdir s d = (s', r) \<Longrightarrow> adds_dirs s s' d"
  using os_mkdir_cases [of s d s' r] put_adds [of s d "clock s"] adds_dirs_refl [of s d]
  by auto

lemma os_mkdir_ok: "os_mkdir s d = (s', None) \<Longrightarrow> is_dir s' d"
  using os_mkdir_cases [of s d s' None]
  by (auto simp: is_dir_def lookup_put path_exists_def)

lemma mkdir_adds: "mkdir s d = (s', r) \<Longrightarrow> adds_dirs s s' d"
proof (induction s d arbitrary: s' r rule: mkdir.induct)
  case (1 s d)
  obtain s1 r1 where o1: "os_mkdir s d = (s1, r1)" by (cases "os_mkdir s d")
  note a1 = os_mkdir_adds [OF o1]
  show ?case
  proof (cases r1)
    case None
    with o1 "1.prems" a1 show ?thesis by (subst (asm) mkdir.simps) simp
  next
    case (Some e)
    show ?thesis
    proof (cases "e = FileNotFoundError \<and> parent d \<noteq> d")
      case False
      with o1 Some "1.prems" a1 show ?thesis
        by (subst (asm) mkdir.simps) (auto split: if_splits)
    next
      case True
      from o1 Some True have s1: "s1 = s"
        by (auto simp: os_mkdir_def split: option.splits node.splits if_splits)
      obtain s2 r2 where m2: "mkdir s1 (parent d) = (s2, r2)" by (cases "mkdir s1 (parent d)")
      have a2: "adds_dirs s1 s2 (parent d)"
        using "1.IH" [OF o1 [symmetric] Some _ _ m2] True by simp
      show ?thesis
      proof (cases r2)
        case (Some e2)
        with o1 \<open>r1 = Some e\<close> True m2 "1.prems" have "s' = s2"
          by (subst (asm) mkdir.simps) simp
        moreover have "adds_dirs s2 s2 d" by (rule adds_dirs_refl)
        ultimately show ?thesis using a2 s1 True adds_dirs_trans_parent by blast
      next
        case None
        obtain s3 r3 where o3: "os_mkdir s2 d = (s3, r3)" by (cases "os_mkdir s2 d")
        have "s' = s3"
          using o1 \<open>r1 = Some e\<close> True m2 None o3 "1.prems"
          by (subst (asm) mkdir.simps) (auto split: option.splits if_splits)
        with os_mkdir_adds [OF o3] a2 s1 True show ?thesis
          using adds_dirs_trans_parent by blast
      qed
    qed
  qed
qed

lemma mkdir_ok: "mkdir s d = (s', None) \<Longrightarrow> is_dir s' d"
proof -
  assume m: "mkdir s d = (s', None)"
  obtain s1 r1 where o1: "os_mkdir s d = (s1, r1)" by (cases "os_mkdir s d")
  show ?thesis
  proof (cases r1)
    case None
    with o1 m have "s' = s1" by (subst (asm) mkdir.simps) simp
    with os_mkdir_ok o1 None show ?thesis by blast
  next
    case (Some e)
    obtain s2 r2 where m2: "mkdir s1 (parent d) = (s2, r2)" by (cases "mkdir s1 (parent d)")
    obtain s3 r3 where o3: "os_mkdir s2 d = (s3, r3)" by (cases "os_mkdir s2 d")
    from m o1 Some m2 o3 show ?thesis
      by (subst (asm) mkdir.simps)
         (auto split: if_splits option.splits dest: os_mkdir_ok)
  qed
qed

subsection \<open>The transfer executor\<close>

lemma do_transfer_try_dry:
  "do_transfer_try s src dst act True
     = (fst (mkdir s (parent dst)),
        case snd (mkdir s (parent dst)) of None \<Rightarrow> Inr True | Some e \<Rightarrow> Inl e)"
  by (simp add: do_transfer_try_def split: prod.splits option.splits)

lemma do_transfer_dry:
  "do_transfer s src dst act True
     = (fst (mkdir s (parent dst)), Inr (snd (mkdir s (parent dst)) = None))"
  by (simp add: do_transfer_def do_transfer_try_dry split: option.splits)

text \<open>
  Claim C1, as the code has it. A dry run never raises and never logs, and no file is
  created, removed or modified by it; but the parent directory of the destination is
  created before the dry-run flag is looked at, so directories at or above that parent
  may be new afterwards, and the call answers success exactly when that creation
  succeeded. Everything that existed before is unchanged, the undo log included.
\<close>

theorem do_transfer_dry_run:
  assumes "do_transfer s src dst act True = (s', r)"
  shows "r = Inr (snd (mkdir s (parent dst)) = None)
       \<and> (r = Inr True \<longrightarrow> is_dir s' (parent dst))
       \<and> (\<forall>p. path_exists s p \<longrightarrow> lookup s' p = lookup s p)
       \<and> (\<forall>p. \<not> path_exists s p \<longrightarrow> path_exists s' p
              \<longrightarrow> is_dir s' p \<and> at_or_under p (parent dst))
       \<and> (\<forall>p c t. lookup s' p = Some (File c t) \<longleftrightarrow> lookup s p = Some (File c t))
       \<and> (\<forall>c. read_text s' UNDO_LOG_FILE = Inr c \<longleftrightarrow> read_text s UNDO_LOG_FILE = Inr c)"
proof -
  obtain r0 where m: "mkdir s (parent dst) = (s', r0)" and r: "r = Inr (r0 = None)"
    using assms by (cases "mkdir s (parent dst)") (simp add: do_transfer_dry)
  have a: "adds_dirs s s' (parent dst)" by (rule mkdir_adds [OF m])
  have ok: "r = Inr True \<longrightarrow> is_dir s' (parent dst)"
    using m r mkdir_ok by auto
  have keep: "\<forall>p. path_exists s p \<longrightarrow> lookup s' p = lookup s p"
    using a by (simp add: adds_dirs_def)
  have new: "\<forall>p. \<not> path_exists s p \<longrightarrow> path_exists s' p
                 \<longrightarrow> is_dir s' p \<and> at_or_under p (parent dst)"
    using a by (simp add: adds_dirs_def)
  have files: "lookup s' p = Some (File c t) \<longleftrightarrow> lookup s p = Some (File c t)" for p c t
  proof (cases "path_exists s p")
    case True
    with keep show ?thesis by simp
  next
    case False
    then have "lookup s p = None" by (simp add: path_exists_def)
    moreover have "lookup s' p \<noteq> Some (File c t)"
    proof
      assume f: "lookup s' p = Some (File c t)"
      then have "path_exists s' p" by (simp add: path_exists_def)
      with new False have "is_dir s' p" by blast
      with f show False by (simp add: is_dir_def)
    qed
    ultimately show ?thesis by simp
  qed
  have rd: "rdeny s' = rdeny s" using a by (simp add: adds_dirs_def)
  have log: "read_text s' UNDO_LOG_FILE = Inr c \<longleftrightarrow> read_text s UNDO_LOG_FILE = Inr c" for c
  proof -
    have "read_text s' UNDO_LOG_FILE = Inr c
            \<longleftrightarrow> (\<exists>t. lookup s' UNDO_LOG_FILE = Some (File c t)) \<and> \<not> rdeny s' UNDO_LOG_FILE"
      by (auto simp: read_text_def split: option.splits node.splits if_splits)
    also have "\<dots> \<longleftrightarrow> (\<exists>t. lookup s UNDO_LOG_FILE = Some (File c t)) \<and> \<not> rdeny s UNDO_LOG_FILE"
      using files rd by simp
    also have "\<dots> \<longleftrightarrow> read_text s UNDO_LOG_FILE = Inr c"
      by (auto simp: read_text_def split: option.splits node.splits if_splits)
    finally show ?thesis .
  qed
  from m r ok keep new files log show ?thesis by simp
qed

lemma mkdir_d_x_run:
  "mkdir fs_run ''/d/x''
     = (put ''/d/x'' (Dir (2024, 1, 1)) (put ''/d'' (Dir (2024, 1, 1)) fs_run), None)"
  by (simp add: mkdir.simps os_mkdir_def parent_def lookup_put path_exists_def
        lookup_def fs_run_def fs0_def put_def)

theorem do_transfer_dry_run_witness:
  "do_transfer fs_run ''/s/a.txt'' ''/d/x/a.txt'' ''move'' True
     = (put ''/d/x'' (Dir (2024, 1, 1)) (put ''/d'' (Dir (2024, 1, 1)) fs_run), Inr True)
   \<and> lookup (put ''/d/x'' (Dir (2024, 1, 1)) (put ''/d'' (Dir (2024, 1, 1)) fs_run)) ''/s/a.txt''
       = Some (File ''content'' (2023, 10, 26))
   \<and> read_text (put ''/d/x'' (Dir (2024, 1, 1)) (put ''/d'' (Dir (2024, 1, 1)) fs_run))
        UNDO_LOG_FILE = Inr (''MOVE|/old/x|/new/x'' @ [CHR 0x0A])
   \<and> is_dir (put ''/d/x'' (Dir (2024, 1, 1)) (put ''/d'' (Dir (2024, 1, 1)) fs_run)) ''/d/x''"
proof -
  let ?s' = "put ''/d/x'' (Dir (2024, 1, 1)) (put ''/d'' (Dir (2024, 1, 1)) fs_run)"
  have par: "parent ''/d/x/a.txt'' = ''/d/x''" by (simp add: parent_def)
  have run: "do_transfer fs_run ''/s/a.txt'' ''/d/x/a.txt'' ''move'' True = (?s', Inr True)"
    by (simp add: do_transfer_dry par mkdir_d_x_run)
  have ex: "path_exists fs_run ''/s/a.txt''"
    by (simp add: path_exists_def lookup_def fs_run_def fs0_def)
  have src: "lookup fs_run ''/s/a.txt'' = Some (File ''content'' (2023, 10, 26))"
    by (simp add: lookup_def fs_run_def fs0_def)
  have log: "read_text fs_run UNDO_LOG_FILE = Inr (''MOVE|/old/x|/new/x'' @ [CHR 0x0A])"
    by (simp add: read_text_def UNDO_LOG_FILE_def lookup_def fs_run_def fs0_def)
  from do_transfer_dry_run [OF run] ex src log par run show ?thesis by simp
qed

text \<open>The claim as stated fails on the directories: a dry run into a destination whose
  directory does not exist yet creates that directory.\<close>

theorem do_transfer_dry_run_counterexample:
  "\<not> path_exists fs_run ''/d/x''
   \<and> is_dir (fst (do_transfer fs_run ''/s/a.txt'' ''/d/x/a.txt'' ''move'' True)) ''/d/x''"
proof
  show "\<not> path_exists fs_run ''/d/x''"
    by (simp add: path_exists_def lookup_def fs_run_def fs0_def)
  show "is_dir (fst (do_transfer fs_run ''/s/a.txt'' ''/d/x/a.txt'' ''move'' True)) ''/d/x''"
    by (simp add: do_transfer_dry parent_def mkdir_d_x_run is_dir_def lookup_put)
qed

text \<open>... and it answers failure when that directory cannot be created.\<close>

lemma do_transfer_dry_run_blocked:
  "snd (do_transfer fs_blocked ''/s/a.txt'' ''/d/x/a.txt'' ''move'' True) = Inr False"
  by (simp add: do_transfer_dry parent_def mkdir.simps os_mkdir_def is_dir_def
        lookup_def fs_blocked_def fs_run_def fs0_def)




subsection \<open>The extension index\<close>











subsection \<open>The size classifier\<close>

lemma do_transfer_never_raises:
  "\<exists>b. snd (do_transfer s src dst act dry) = Inr b"
  by (auto simp: do_transfer_def split: prod.splits sum.splits)

lemma size_category_bytes:
  "size_category n =
     (if n < 1048576 then ''Small (Under 1MB)''
      else if n < 104857600 then ''Medium (1-100MB)'' else ''Large (Over 100MB)'')"
proof -
  have small: "((of_nat n :: rat) / (1024 * 1024) < 1) \<longleftrightarrow> n < 1048576"
  proof -
    have "((of_nat n :: rat) / (1024 * 1024) < 1) \<longleftrightarrow> (of_nat n :: rat) < of_nat 1048576"
      by (simp add: divide_less_eq)
    also have "\<dots> \<longleftrightarrow> n < 1048576" by (simp only: of_nat_less_iff)
    finally show ?thesis .
  qed
  have medium: "((of_nat n :: rat) / (1024 * 1024) < 100) \<longleftrightarrow> n < 104857600"
  proof -
    have "((of_nat n :: rat) / (1024 * 1024) < 100) \<longleftrightarrow> (of_nat n :: rat) < of_nat 104857600"
      by (simp add: divide_less_eq)
    also have "\<dots> \<longleftrightarrow> n < 104857600" by (simp only: of_nat_less_iff)
    finally show ?thesis .
  qed
  show ?thesis
    unfolding size_category_def Let_def small medium by (rule refl)
qed

lemma organize_by_size_free:
  assumes "lookup s file = Some (File c t)"
    and "\<not> path_exists s (joinp (joinp dest_root (size_category (length c))) (name file))"
  shows "organize_by_size s file dest_root ext_index kw
     = (fst (do_transfer s file
               (joinp (joinp dest_root (size_category (length c))) (name file))
               (action kw) (dry_run kw)),
        map_sum id Some
          (snd (do_transfer s file
                  (joinp (joinp dest_root (size_category (length c))) (name file))
                  (action kw) (dry_run kw))))"
proof -
  let ?D = "joinp (joinp dest_root (size_category (length c))) (name file)"
  obtain s2 b where t: "do_transfer s file ?D (action kw) (dry_run kw) = (s2, Inr b)"
    using do_transfer_never_raises [of s "file" ?D "action kw" "dry_run kw"]
    by (cases "do_transfer s file ?D (action kw) (dry_run kw)") auto
  have "resolve_and_transfer s file ?D kw = (s2, Inr (Some b))"
    using assms(2) t by (simp add: resolve_and_transfer_def resolve_conflict_def)
  then show ?thesis
    using assms(1) t
    by (simp add: organize_by_size_def stat_def st_size_def except_false_def Let_def)
qed

text \<open>
  Claim C8. A file of \<open>n\<close> bytes is Small exactly when \<open>n < 1 MiB\<close>, Medium exactly
  when \<open>1 MiB \<le> n < 100 MiB\<close> and Large exactly when \<open>100 MiB \<le> n\<close>; the two
  boundary sizes go to the upper class. The size classifier hands a file whose
  destination is free to the transfer executor with the destination
  \<open>dest_root / category / filename\<close>, and answers what the executor answers.
\<close>

theorem organize_by_size_thresholds:
  "(size_category n = ''Small (Under 1MB)'' \<longleftrightarrow> n < 1048576)
   \<and> (size_category n = ''Medium (1-100MB)'' \<longleftrightarrow> 1048576 \<le> n \<and> n < 104857600)
   \<and> (size_category n = ''Large (Over 100MB)'' \<longleftrightarrow> 104857600 \<le> n)
   \<and> size_category 1048576 = ''Medium (1-100MB)''
   \<and> size_category 104857600 = ''Large (Over 100MB)''
   \<and> (lookup s file = Some (File c t)
        \<longrightarrow> \<not> path_exists s (joinp (joinp dest_root (size_category (length c))) (name file))
        \<longrightarrow> organize_by_size s file dest_root ext_index kw
             = (fst (do_transfer s file
                       (joinp (joinp dest_root (size_category (length c))) (name file))
                       (action kw) (dry_run kw)),
                map_sum id Some
                  (snd (do_transfer s file
                          (joinp (joinp dest_root (size_category (length c))) (name file))
                          (action kw) (dry_run kw)))))"
  using organize_by_size_free [of s "file" c t dest_root ext_index kw]
  by (simp add: size_category_bytes)

lemma upper_move: "upper ''move'' = ''MOVE''"
  by (simp add: upper_def upper_char_def)

lemma name_big: "name ''/s/big.bin'' = ''big.bin''"
  by (simp add: name_def)

lemma do_transfer_big:
  "do_transfer fs_big ''/s/big.bin'' ''/out/Medium (1-100MB)/big.bin'' ''move'' False
     = (put UNDO_LOG_FILE
          (File (''MOVE|/s/big.bin|/out/Medium (1-100MB)/big.bin'' @ [CHR 0x0A]) (2024, 1, 1))
          (put ''/out/Medium (1-100MB)/big.bin''
             (File (replicate 1048576 (CHR ''x'')) (2024, 1, 1))
             (remove ''/s/big.bin''
                (put ''/out/Medium (1-100MB)'' (Dir (2024, 1, 1))
                   (put ''/out'' (Dir (2024, 1, 1)) fs_big)))),
        Inr True)"
proof -
  have par: "parent ''/out/Medium (1-100MB)/big.bin'' = ''/out/Medium (1-100MB)''"
    "parent ''/out/Medium (1-100MB)'' = ''/out''" "parent ''/out'' = ''/''"
    "parent ''undo.log'' = ''.''"
    by (simp_all add: parent_def)
  have base: "lookup fs_big ''/out'' = None" "lookup fs_big ''/out/Medium (1-100MB)'' = None"
    "lookup fs_big ''/out/Medium (1-100MB)/big.bin'' = None"
    "lookup fs_big ''undo.log'' = None"
    "lookup fs_big ''/s/big.bin'' = Some (File (replicate 1048576 (CHR ''x'')) (2024, 1, 1))"
    "clock fs_big = (2024, 1, 1)" "wdeny fs_big = (\<lambda>p. False)" "rdeny fs_big = (\<lambda>p. False)"
    by (simp_all add: lookup_def fs_big_def fs0_def)
  have m: "mkdir fs_big ''/out/Medium (1-100MB)''
     = (put ''/out/Medium (1-100MB)'' (Dir (2024, 1, 1)) (put ''/out'' (Dir (2024, 1, 1)) fs_big),
        None)"
    by (simp add: mkdir.simps os_mkdir_def par base lookup_put path_exists_def)
  show ?thesis
    by (simp add: do_transfer_def do_transfer_try_def par m shutil_move_def is_dir_def
          lookup_put lookup_remove base path_exists_def log_undo_operation_def
          write_text_def upper_move UNDO_LOG_FILE_def)
qed

theorem organize_by_size_thresholds_witness:
  "lookup fs_big ''/s/big.bin'' = Some (File (replicate 1048576 (CHR ''x'')) (2024, 1, 1))
   \<and> \<not> path_exists fs_big ''/out/Medium (1-100MB)/big.bin''
   \<and> snd (organize_by_size fs_big ''/s/big.bin'' ''/out'' Map.empty kw_move) = Inr (Some True)
   \<and> lookup (fst (organize_by_size fs_big ''/s/big.bin'' ''/out'' Map.empty kw_move))
        ''/out/Medium (1-100MB)/big.bin''
       = Some (File (replicate 1048576 (CHR ''x'')) (2024, 1, 1))
   \<and> lookup (fst (organize_by_size fs_big ''/s/big.bin'' ''/out'' Map.empty kw_move))
        ''/s/big.bin'' = None"
proof -
  have l: "lookup fs_big ''/s/big.bin''
             = Some (File (replicate 1048576 (CHR ''x'')) (2024, 1, 1))"
    by (simp add: lookup_def fs_big_def fs0_def)
  have j: "joinp (joinp ''/out'' ''Medium (1-100MB)'') ''big.bin''
             = ''/out/Medium (1-100MB)/big.bin''"
    by (simp add: joinp_def)
  have n: "\<not> path_exists fs_big ''/out/Medium (1-100MB)/big.bin''"
    by (simp add: path_exists_def lookup_def fs_big_def fs0_def)
  have kw: "action kw_move = ''move''" "dry_run kw_move = False"
    by (simp_all add: kw_move_def)
  from organize_by_size_thresholds
         [of 1048576 fs_big "''/s/big.bin''" "replicate 1048576 (CHR ''x'')" "(2024, 1, 1)"
             "''/out''" Map.empty kw_move]
  have "organize_by_size fs_big ''/s/big.bin'' ''/out'' Map.empty kw_move
          = (fst (do_transfer fs_big ''/s/big.bin'' ''/out/Medium (1-100MB)/big.bin''
                    ''move'' False),
             map_sum id Some
               (snd (do_transfer fs_big ''/s/big.bin'' ''/out/Medium (1-100MB)/big.bin''
                       ''move'' False)))"
    using l n by (simp add: name_big j kw)
  then show ?thesis
    using l n by (simp add: do_transfer_big lookup_put lookup_remove UNDO_LOG_FILE_def)
qed

subsection \<open>The undo engine\<close>



subsection \<open>What the undo loop preserves\<close>













subsection \<open>The counters of a run\<close>

lemma process_loop_counts:
  assumes "process_loop kw organizer_func ext_index idx items s st = (s', Inr st')"
    and "counted st" and "processed st + length items \<le> total st"
  shows "counted st' \<and> processed st' \<le> total st' \<and> total st' = total st"
  using assms
proof (induction items arbitrary: idx s st)
  case Nil
  then show ?case by simp
next
  case (Cons item rest)
  show ?case
  proof (cases "case cancel_event kw of Some is_set \<Rightarrow> is_set idx | None \<Rightarrow> False")
    case True
    with Cons.prems show ?thesis by simp
  next
    case False
    obtain s1 r1 where org: "organizer_func s item (dest kw) ext_index kw = (s1, r1)"
      by (cases "organizer_func s item (dest kw) ext_index kw")
    from Cons.prems(1) False org obtain result where r1: "r1 = Inr result"
      by (cases r1) auto
    have "\<exists>st2. process_loop kw organizer_func ext_index (idx + 1) rest s1 st2 = (s', Inr st')
            \<and> counted st2 \<and> processed st2 + length rest \<le> total st2 \<and> total st2 = total st"
    proof -
      consider "result = None" | "result = Some True" | "result = Some False"
        by (cases result) auto
      then show ?thesis
      proof cases
        case 1
        with Cons.prems False org r1 show ?thesis
          by (intro exI [of _ "st\<lparr>processed := processed st + 1, skipped := skipped st + 1\<rparr>"])
             (auto simp: Let_def counted_def split: option.splits)
      next
        case 2
        with Cons.prems False org r1 show ?thesis
          by (intro exI [of _ "st\<lparr>processed := processed st + 1,
                                      succeeded := succeeded st + 1\<rparr>"])
             (auto simp: Let_def counted_def split: option.splits)
      next
        case 3
        with Cons.prems False org r1 show ?thesis
          by (intro exI [of _ "st\<lparr>processed := processed st + 1, failed := failed st + 1\<rparr>"])
             (auto simp: Let_def counted_def split: option.splits)
      qed
    qed
    then obtain st2 where
      st2: "process_loop kw organizer_func ext_index (idx + 1) rest s1 st2 = (s', Inr st')"
        "counted st2" "processed st2 + length rest \<le> total st2" "total st2 = total st"
      by blast
    from Cons.IH [OF st2(1,2,3)] st2(4) show ?thesis by simp
  qed
qed

text \<open>
  Claim C9. Whatever statistics \<^verbatim>\<open>process_directory\<close> returns, after a full run, a
  cancelled one, a run with nothing to do or a failed validation, \<open>processed\<close> is the
  sum of \<open>succeeded\<close>, \<open>failed\<close> and \<open>skipped\<close> and is at most \<open>total\<close>.
\<close>

theorem process_directory_counts:
  assumes "snd (process_directory ev s kw) = Inr st"
  shows "processed st = succeeded st + failed st + skipped st \<and> processed st \<le> total st"
proof -
  obtain ok msg where v: "validate_paths ev s (source kw) (dest kw) = (ok, msg)"
    by (cases "validate_paths ev s (source kw) (dest kw)")
  show ?thesis
  proof (cases "ok \<and> ORGANIZERS (mode kw) \<noteq> None")
    case False
    with assms v show ?thesis
      by (auto simp: process_directory_def zero_stats_def split: option.splits bool.splits)
  next
    case True
    then obtain organizer_func where o: "ORGANIZERS (mode kw) = Some organizer_func" by auto
    let ?items = "case files kw of Some given \<Rightarrow> given
                  | None \<Rightarrow> list_files s (source kw) (recursive kw) (Some (dest kw))"
    show ?thesis
    proof (cases "length ?items = 0")
      case z: True
      with assms v True o show ?thesis
        by (auto simp: process_directory_def zero_stats_def Let_def)
    next
      case nz: False
      obtain s1 lc where l: "load_categories ev s = (s1, lc)"
        by (cases "load_categories ev s")
      from assms v True o nz l obtain loaded where lc: "lc = Inr loaded"
        by (cases lc) (auto simp: process_directory_def Let_def)
      let ?cats = "case categories kw of Some given \<Rightarrow> given | None \<Rightarrow> loaded"
      let ?idx = "if mode kw = ''type'' then build_ext_index ?cats else Map.empty"
      let ?st0 = "zero_stats\<lparr>total := length ?items\<rparr>"
      obtain s2 r2 where
        loop: "process_loop kw organizer_func ?idx 1 ?items s1 ?st0 = (s2, r2)"
        by (cases "process_loop kw organizer_func ?idx 1 ?items s1 ?st0")
      from assms v True o nz l lc loop have "r2 = Inr st"
        by (simp add: process_directory_def Let_def)
      with loop have "process_loop kw organizer_func ?idx 1 ?items s1 ?st0 = (s2, Inr st)"
        by simp
      from process_loop_counts [OF this] show ?thesis
        by (simp add: counted_def zero_stats_def)
    qed
  qed
qed

lemma str_nat_2023: "str_nat 2023 = ''2023''" and pad2_10: "pad2 10 = ''10''"
  by (simp_all add: pad2_def str_nat.simps digit_char_def)

lemma process_directory_date_run:
  "process_directory env0 fs_run kw_date
     = (fs_after_run,
        Inr \<lparr>total = 2, succeeded = 1, failed = 0, processed = 1, skipped = 0, error = None\<rparr>)"
proof -
  have base: "lookup fs_run ''/s'' = Some (Dir (2024, 1, 1))"
    "lookup fs_run ''/s/a.txt'' = Some (File ''content'' (2023, 10, 26))"
    "lookup fs_run ''undo.log'' = Some (File ''MOVE|/old/x|/new/x\<newline>'' (2024, 1, 1))"
    "lookup fs_run ''categories.json'' = None"
    "lookup fs_run ''/out'' = None" "lookup fs_run ''/out/2023'' = None"
    "lookup fs_run ''/out/2023/10-October'' = None"
    "lookup fs_run ''/out/2023/10-October/a.txt'' = None"
    "lookup fs_run ''/usr'' = None" "lookup fs_run ''/bin'' = None"
    "lookup fs_run ''/sbin'' = None" "lookup fs_run ''/etc'' = None"
    "wdeny fs_run = (\<lambda>p. False)" "rdeny fs_run = (\<lambda>p. False)" "clock fs_run = (2024, 1, 1)"
    by (simp_all add: lookup_def fs_run_def fs0_def)
  have v: "validate_paths env0 fs_run ''/s'' ''/out'' = (True, [])"
    by (simp add: validate_paths_def system_dirs_def env0_def path_exists_def is_dir_def base)
  have l: "load_categories env0 fs_run
             = (fs_cats, Inr DEFAULT_CATEGORIES)"
    by (simp add: load_categories_def CATEGORIES_FILE_def path_exists_def base write_text_def
          parent_def env0_def fs_cats_def)
  have kw: "source kw_date = ''/s''" "dest kw_date = ''/out''" "mode kw_date = ''date''"
    "action kw_date = ''move''" "conflict_policy kw_date = ''rename''" "dry_run kw_date = False"
    "files kw_date = Some [''/s/a.txt'', ''/s/b.txt'']" "categories kw_date = Some []"
    "cancel_event kw_date = Some (\<lambda>idx. 2 \<le> idx)" "on_progress kw_date = None"
    by (simp_all add: kw_date_def)
  have org: "organize_by_date fs_cats ''/s/a.txt'' ''/out'' Map.empty kw_date
             = (fs_after_run, Inr (Some True))"
    by (simp add: organize_by_date_def stat_def lookup_put base str_nat_2023 pad2_10
          month_name_def joinp_def name_def resolve_and_transfer_def resolve_conflict_def
          path_exists_def kw do_transfer_def do_transfer_try_def parent_def mkdir.simps
          os_mkdir_def shutil_move_def is_dir_def lookup_remove log_undo_operation_def
          write_text_def UNDO_LOG_FILE_def upper_move except_false_def fs_after_run_def
          fs_cats_def)
  show ?thesis
    by (simp add: process_directory_def kw v ORGANIZERS_def l Let_def org zero_stats_def)
qed

theorem process_directory_counts_witness:
  "snd (process_directory env0 fs_run kw_date)
     = Inr \<lparr>total = 2, succeeded = 1, failed = 0, processed = 1, skipped = 0, error = None\<rparr>
   \<and> processed \<lparr>total = 2, succeeded = 1, failed = 0, processed = 1, skipped = 0,
                  error = None :: string option\<rparr>
       \<le> total \<lparr>total = 2, succeeded = 1, failed = 0, processed = 1, skipped = 0,
                   error = None :: string option\<rparr>"
proof -
  let ?st = "\<lparr>total = 2, succeeded = 1, failed = 0, processed = 1, skipped = 0,
               error = None :: string option\<rparr>"
  have r: "snd (process_directory env0 fs_run kw_date) = Inr ?st"
    by (simp add: process_directory_date_run)
  from process_directory_counts [OF r] r show ?thesis by simp
qed

subsection \<open>What a run does to the undo log\<close>
































subsection \<open>When a run returns\<close>

lemma unlink_OSError: "unlink s p m = (s', Some e) \<Longrightarrow> is_OSError e"
  by (auto simp: unlink_def is_OSError_def split: option.splits node.splits if_splits)

lemma rmtree_OSError: "rmtree s d = (s', Some e) \<Longrightarrow> is_OSError e"
  by (auto simp: rmtree_def is_OSError_def split: if_splits)

lemma resolve_conflict_returns:
  "pol \<in> {''skip'', ''overwrite'', ''rename''} \<Longrightarrow> \<exists>r. snd (resolve_conflict s d pol) = Inr r"
  by (auto simp: resolve_conflict_def split: prod.splits option.splits
        dest: unlink_OSError rmtree_OSError)

lemma resolve_and_transfer_returns:
  assumes "conflict_policy kw \<in> {''skip'', ''overwrite'', ''rename''}"
  shows "\<exists>r. snd (resolve_and_transfer s f d kw) = Inr r"
proof -
  obtain s1 r1 where rc: "resolve_conflict s d (conflict_policy kw) = (s1, Inr r1)"
    using resolve_conflict_returns [OF assms, of s d]
    by (cases "resolve_conflict s d (conflict_policy kw)") auto
  show ?thesis
  proof (cases r1)
    case None
    with rc show ?thesis by (simp add: resolve_and_transfer_def)
  next
    case (Some fd)
    obtain s2 b where "do_transfer s1 f fd (action kw) (dry_run kw) = (s2, Inr b)"
      using do_transfer_never_raises [of s1 f fd "action kw" "dry_run kw"]
      by (cases "do_transfer s1 f fd (action kw) (dry_run kw)") auto
    with rc Some show ?thesis by (simp add: resolve_and_transfer_def)
  qed
qed

lemma except_false_returns: "\<exists>r. snd (except_false x) = Inr r"
  by (auto simp: except_false_def split: prod.splits sum.splits)

lemma organizers_return:
  assumes "ORGANIZERS m = Some organizer_func"
    and "conflict_policy kw \<in> {''skip'', ''overwrite'', ''rename''}"
  shows "\<exists>r. snd (organizer_func s f d idx kw) = Inr r"
proof -
  note rt = resolve_and_transfer_returns [OF assms(2)]
  from assms(1) consider "organizer_func = organize_by_type" | "organizer_func = organize_by_name"
    | "organizer_func = organize_by_date" | "organizer_func = organize_by_day"
    | "organizer_func = organize_by_size" | "organizer_func = organize_by_first_letter"
    by (auto simp: ORGANIZERS_def split: if_splits)
  then show ?thesis
  proof cases
    case 1
    with rt show ?thesis
      by (auto simp: organize_by_type_def Let_def split: option.splits)
  next
    case 2
    with rt show ?thesis by (simp add: organize_by_name_def)
  next
    case 3
    then show ?thesis by (simp add: organize_by_date_def except_false_returns)
  next
    case 4
    then show ?thesis by (simp add: organize_by_day_def except_false_returns)
  next
    case 5
    then show ?thesis by (simp add: organize_by_size_def except_false_returns)
  next
    case 6
    with rt show ?thesis by (simp add: organize_by_first_letter_def Let_def)
  qed
qed

lemma process_loop_returns:
  assumes "\<And>s item. \<exists>r. snd (organizer_func s item (dest kw) ext_index kw) = Inr r"
    and "on_progress kw = None"
  shows "\<exists>st'. snd (process_loop kw organizer_func ext_index idx items s st) = Inr st'"
proof (induction items arbitrary: idx s st)
  case Nil
  then show ?case by simp
next
  case (Cons item rest)
  obtain s1 r where org: "organizer_func s item (dest kw) ext_index kw = (s1, Inr r)"
    using assms(1) [of s item]
    by (cases "organizer_func s item (dest kw) ext_index kw") auto
  show ?case
    using org assms(2) Cons.IH by (auto simp: Let_def)
qed

lemma load_categories_returns:
  assumes "\<And>txt e. json_load ev txt = Inl e \<Longrightarrow> e = JSONDecodeError \<or> is_OSError e"
  shows "\<exists>cats. snd (load_categories ev s) = Inr cats"
proof (cases "path_exists s CATEGORIES_FILE")
  case False
  then show ?thesis
    by (auto simp: load_categories_def write_text_def is_OSError_def
          split: option.splits node.splits prod.splits)
next
  case True
  show ?thesis
  proof (cases "read_text s CATEGORIES_FILE")
    case (Inl e)
    then have "is_OSError e"
      by (auto simp: read_text_def is_OSError_def split: option.splits node.splits if_splits)
    with True Inl show ?thesis by (simp add: load_categories_def)
  next
    case (Inr body)
    with True assms [of body] show ?thesis
      by (cases "json_load ev body") (auto simp: load_categories_def)
  qed
qed

text \<open>
  A run returns statistics, and raises nothing, when the conflict policy is one of the
  three known ones, no progress callback is given and the json library reports a
  categories file it cannot use by \<^verbatim>\<open>JSONDecodeError\<close>. (An unknown policy raises
  in the classifiers by type, name and first letter; a progress callback may raise, as
  the one of the graphical front end does on cancellation.)
\<close>

lemma process_directory_returns:
  assumes "conflict_policy kw \<in> {''skip'', ''overwrite'', ''rename''}"
    and "on_progress kw = None"
    and "\<And>txt e. json_load ev txt = Inl e \<Longrightarrow> e = JSONDecodeError \<or> is_OSError e"
  shows "\<exists>st. snd (process_directory ev s kw) = Inr st"
proof (cases "ORGANIZERS (mode kw)")
  case None
  then show ?thesis
    by (auto simp: process_directory_def split: prod.splits bool.splits)
next
  case (Some organizer_func)
  have "\<exists>cats. snd (load_categories ev s) = Inr cats"
    by (rule load_categories_returns) (rule assms(3))
  then obtain s1 cats where lc: "load_categories ev s = (s1, Inr cats)"
    by (cases "load_categories ev s") auto
  have org: "\<exists>r. snd (organizer_func s' item (dest kw) idx kw) = Inr r" for s' item idx
    by (rule organizers_return [OF Some assms(1)])
  have loop: "\<exists>st'. snd (process_loop kw organizer_func idx i items s1 st) = Inr st'"
    for idx i items st
    by (rule process_loop_returns) (rule org, rule assms(2))
  show ?thesis
    using Some lc loop
    by (auto simp: process_directory_def Let_def split: prod.splits bool.splits)
qed

end
